theory Spec2Isabelle
  imports Complex_Main "HOL-Library.Mapping" "HOL-Library.Stream" "HOL-Library.Log_Nat"
begin

section \<open>The vehicle registration example (example-2/wip.py)\<close>

subsection \<open>Enumerations and errors\<close>

datatype FuelType = ELECTRIC | PETROL

datatype RegistryStatus = ONLINE | CONNECTION_ERROR | OFFLINE

text \<open>
  \<open>VehicleInfoMissingError\<close> is a dataclass with the fields brand, model and message.
  \<open>IndexError\<close> is what indexing an empty population raises inside \<open>random.choices\<close>,
  \<open>OverflowError\<close> what the conversion of an integer beyond the range of a float raises.
\<close>

datatype error =
    VehicleInfoMissingError string string string
  | IndexError
  | OverflowError

definition default_message :: string where
  "default_message = ''Vehicle information is missing.''"

subsection \<open>Data classes\<close>

record VehicleModelInfo =
  brand :: string
  model :: string
  catalogue_price :: int
  fuel_type :: FuelType
  production_year :: int

record Vehicle =
  vehicle_id :: string
  license_plate :: string
  info :: VehicleModelInfo

record VehicleRegistry =
  vehicle_models :: "(string \<times> string, VehicleModelInfo) mapping"
  online :: bool

text \<open>
  The generated \<open>__init__\<close> of \<open>VehicleModelInfo\<close>. The default of \<open>production_year\<close> is
  the value of \<open>datetime.now().year\<close> when the class statement ran; it is the first
  argument here. An argument left out is \<open>None\<close>.
\<close>

definition new_VehicleModelInfo ::
  "int \<Rightarrow> string \<Rightarrow> string \<Rightarrow> int \<Rightarrow> FuelType option \<Rightarrow> int option \<Rightarrow> VehicleModelInfo" where
  "new_VehicleModelInfo class_year b m price ft yr =
     \<lparr>brand = b, model = m, catalogue_price = price,
      fuel_type = (case ft of None \<Rightarrow> ELECTRIC | Some f \<Rightarrow> f),
      production_year = (case yr of None \<Rightarrow> class_year | Some y \<Rightarrow> y)\<rparr>"

subsection \<open>Floats\<close>

text \<open>
  A Python float is an IEEE 754 binary64 number. \<open>Finite m e\<close> stands for the number
  \<open>m * 2 ^ e\<close>; two such pairs with the same value are the same float (the sign of a
  zero is not kept: \<open>-0.0 == 0.0\<close>). Arithmetic rounds to the nearest float, a tie to
  the one with an even significand: 53 bits of significand, the least exponent of a
  subnormal \<open>-1074\<close>, overflow to infinity from \<open>2 ^ 1024\<close> on.
\<close>

datatype pyfloat = Finite int int | Infinity bool | NaN

fun float_val :: "pyfloat \<Rightarrow> real option" where
  "float_val (Finite m e) = Some (of_int m * 2 powi e)"
| "float_val (Infinity negative) = None"
| "float_val NaN = None"

definition round_half_even :: "int \<Rightarrow> nat \<Rightarrow> int" where
  "round_half_even M s =
     (if s = 0 then M
      else (let q = M div 2 ^ s; r = M mod 2 ^ s; h = 2 ^ (s - 1)
            in if r < h \<or> (r = h \<and> even q) then q else q + 1))"

definition round_double :: "int \<Rightarrow> int \<Rightarrow> pyfloat" where
  "round_double M E =
     (let q = max (E + bitlen \<bar>M\<bar> - 53) (- 1074);
          k = (if q \<le> E then M else round_half_even M (nat (q - E)));
          e = (if q \<le> E then E else q)
      in if bitlen \<bar>k\<bar> + e > 1024 then Infinity (k < 0) else Finite k e)"

text \<open>
  The finite floats are the numbers \<open>m * 2 ^ e\<close> with \<open>\<bar>m\<bar> < 2 ^ 53\<close> and
  \<open>-1074 \<le> e \<le> 971\<close>.
\<close>

definition is_double :: "int \<Rightarrow> int \<Rightarrow> bool" where
  "is_double m e \<longleftrightarrow> \<bar>m\<bar> < 2 ^ 53 \<and> - 1074 \<le> e \<and> e \<le> 971"

text \<open>
  The conversion of an \<open>int\<close> operand (\<open>PyLong_AsDouble\<close>): correctly rounded, and
  \<open>OverflowError\<close> where the rounded value is beyond the largest float.
\<close>

definition float_of_int :: "int \<Rightarrow> error + pyfloat" where
  "float_of_int n =
     (case round_double n 0 of
        Finite m e \<Rightarrow> Inr (Finite m e)
      | Infinity negative \<Rightarrow> Inl OverflowError
      | NaN \<Rightarrow> Inl OverflowError)"

fun float_mul :: "pyfloat \<Rightarrow> pyfloat \<Rightarrow> pyfloat" where
  "float_mul (Finite m1 e1) (Finite m2 e2) = round_double (m1 * m2) (e1 + e2)"
| "float_mul (Finite m e) (Infinity s) = (if m = 0 then NaN else Infinity (s \<noteq> (m < 0)))"
| "float_mul (Infinity s) (Finite m e) = (if m = 0 then NaN else Infinity (s \<noteq> (m < 0)))"
| "float_mul (Infinity s) (Infinity t) = Infinity (s \<noteq> t)"
| "float_mul NaN y = NaN"
| "float_mul x NaN = NaN"

text \<open>
  \<open>taxes = {FuelType.ELECTRIC: 0.02, FuelType.PETROL: 0.05}\<close>. The literal \<open>0.02\<close> is
  the float \<open>0x1.47ae147ae147bp-6\<close> and \<open>0.05\<close> is \<open>0x1.999999999999ap-5\<close>, the
  floats nearest to 1/50 and 1/20 (\<open>taxes_nearest\<close> below). Both keys are present, so
  the lookup never raises.
\<close>

definition taxes :: "FuelType \<Rightarrow> pyfloat" where
  "taxes ft = (case ft of ELECTRIC \<Rightarrow> Finite 5764607523034235 (- 58)
                        | PETROL \<Rightarrow> Finite 7205759403792794 (- 57))"

text \<open>The property \<open>tax\<close>: \<open>float * int\<close> converts the integer, then multiplies.\<close>

definition tax :: "VehicleModelInfo \<Rightarrow> error + pyfloat" where
  "tax self =
     (let tax_percentage = taxes (fuel_type self)
      in case float_of_int (catalogue_price self) of
           Inl e \<Rightarrow> Inl e
         | Inr price \<Rightarrow> Inr (float_mul tax_percentage price))"

subsection \<open>The random source\<close>

text \<open>
  \<open>random.choices(population, k=k)\<close> returns
  \<open>[population[floor(random() * n)] for i in repeat(None, k)]\<close> with \<open>n\<close> the length of the
  population. The generator is the interpreter's global one: its state is threaded
  through explicitly, as the stream of the draws to come, and a draw is reduced to an
  index below \<open>n\<close>. An empty population with \<open>k > 0\<close> raises \<open>IndexError\<close>.
\<close>

type_synonym rng = "nat stream"

fun choices :: "'a list \<Rightarrow> nat \<Rightarrow> rng \<Rightarrow> (error + 'a list) \<times> rng" where
  "choices population 0 g = (Inr [], g)"
| "choices population (Suc k) g =
     (if population = [] then (Inl IndexError, stl g)
      else (case choices population k (stl g) of
              (Inl e, g') \<Rightarrow> (Inl e, g')
            | (Inr rest, g') \<Rightarrow> (Inr (population ! (shd g mod length population) # rest), g')))"

definition ascii_uppercase :: string where
  "ascii_uppercase = ''ABCDEFGHIJKLMNOPQRSTUVWXYZ''"

definition digits :: string where
  "digits = ''0123456789''"

definition is_ascii_upper :: "char \<Rightarrow> bool" where
  "is_ascii_upper c \<longleftrightarrow> 65 \<le> (of_char c :: nat) \<and> (of_char c :: nat) \<le> 90"

definition is_ascii_digit :: "char \<Rightarrow> bool" where
  "is_ascii_digit c \<longleftrightarrow> 48 \<le> (of_char c :: nat) \<and> (of_char c :: nat) \<le> 57"

subsection \<open>The registry\<close>

text \<open>
  Every method takes the registry and returns its result together with the registry
  after the call. \<open>register_vehicle\<close> also threads the random source.
\<close>

definition new_VehicleRegistry :: VehicleRegistry where
  "new_VehicleRegistry = \<lparr>vehicle_models = Mapping.empty, online = True\<rparr>"

definition add_vehicle_model_info :: "VehicleRegistry \<Rightarrow> VehicleModelInfo \<Rightarrow> VehicleRegistry" where
  "add_vehicle_model_info self model_info =
     self\<lparr>vehicle_models :=
       Mapping.update (brand model_info, model model_info) model_info (vehicle_models self)\<rparr>"

text \<open>A negative \<open>length\<close> repeats zero times, as \<open>nat\<close> does.\<close>

definition generate_vehicle_id :: "int \<Rightarrow> rng \<Rightarrow> (error + string) \<times> rng" where
  "generate_vehicle_id len g = choices ascii_uppercase (nat len) g"

definition generate_vehicle_license :: "string \<Rightarrow> rng \<Rightarrow> (error + string) \<times> rng" where
  "generate_vehicle_license ident g =
     (case choices digits 2 g of
        (Inl e, g1) \<Rightarrow> (Inl e, g1)
      | (Inr digit_part, g1) \<Rightarrow>
          (case choices ascii_uppercase 2 g1 of
             (Inl e, g2) \<Rightarrow> (Inl e, g2)
           | (Inr letter_part, g2) \<Rightarrow>
               (Inr (take 2 ident @ ''-'' @ digit_part @ ''-'' @ letter_part), g2)))"

definition find_model_info ::
  "VehicleRegistry \<Rightarrow> string \<Rightarrow> string \<Rightarrow> VehicleModelInfo option \<times> VehicleRegistry" where
  "find_model_info self b m = (Mapping.lookup (vehicle_models self) (b, m), self)"

text \<open>
  \<open>not vehicle_model\<close> holds for \<open>None\<close> only: the data class defines neither \<open>__bool__\<close>
  nor \<open>__len__\<close>, so every instance is true.
\<close>

definition register_vehicle ::
  "VehicleRegistry \<Rightarrow> rng \<Rightarrow> string \<Rightarrow> string \<Rightarrow> (error + Vehicle) \<times> VehicleRegistry \<times> rng" where
  "register_vehicle self g b m =
     (case find_model_info self b m of
        (None, self1) \<Rightarrow> (Inl (VehicleInfoMissingError b m default_message), self1, g)
      | (Some vehicle_model, self1) \<Rightarrow>
          (case generate_vehicle_id 12 g of
             (Inl e, g1) \<Rightarrow> (Inl e, self1, g1)
           | (Inr vid, g1) \<Rightarrow>
               (case generate_vehicle_license vid g1 of
                  (Inl e, g2) \<Rightarrow> (Inl e, self1, g2)
                | (Inr plate, g2) \<Rightarrow>
                    (Inr \<lparr>vehicle_id = vid, license_plate = plate, info = vehicle_model\<rparr>,
                     self1, g2))))"

definition online_status :: "VehicleRegistry \<Rightarrow> RegistryStatus \<times> VehicleRegistry" where
  "online_status self =
     (if \<not> online self then (OFFLINE, self)
      else (if Mapping.is_empty (vehicle_models self) then CONNECTION_ERROR else ONLINE, self))"

subsection \<open>The demonstration data of \<open>main\<close>\<close>

text \<open>
  The registry as \<open>main\<close> fills it: four models, three with the default fuel type and
  \<open>BMW 520e\<close> with petrol. \<open>example_year\<close> stands for the year the class was defined in.
\<close>

definition example_year :: int where "example_year = 2024"

definition tesla_model_3 :: VehicleModelInfo where
  "tesla_model_3 = new_VehicleModelInfo example_year ''Tesla'' ''Model 3'' 50000 None None"

definition volkswagen_id3 :: VehicleModelInfo where
  "volkswagen_id3 = new_VehicleModelInfo example_year ''Volkswagen'' ''ID3'' 35000 None None"

definition bmw_520e :: VehicleModelInfo where
  "bmw_520e = new_VehicleModelInfo example_year ''BMW'' ''520e'' 60000 (Some PETROL) None"

definition tesla_model_y :: VehicleModelInfo where
  "tesla_model_y = new_VehicleModelInfo example_year ''Tesla'' ''Model Y'' 55000 None None"

definition main_registry :: VehicleRegistry where
  "main_registry =
     foldl add_vehicle_model_info new_VehicleRegistry
       [tesla_model_3, volkswagen_id3, bmw_520e, tesla_model_y]"

subsection \<open>Random choices\<close>

lemma choices_Inr:
  "population \<noteq> [] \<Longrightarrow>
    \<exists>xs g'. choices population k g = (Inr xs, g') \<and> length xs = k \<and> set xs \<subseteq> set population"
proof (induction k arbitrary: g)
  case 0
  then show ?case by simp
next
  case (Suc k)
  from Suc.IH [OF Suc.prems, of "stl g"] obtain xs g'
    where "choices population k (stl g) = (Inr xs, g')" "length xs = k" "set xs \<subseteq> set population"
    by blast
  with Suc.prems show ?case by simp
qed

lemma ascii_uppercase_upper: "c \<in> set ascii_uppercase \<Longrightarrow> is_ascii_upper c"
  by (auto simp: ascii_uppercase_def is_ascii_upper_def)

lemma digits_digit: "c \<in> set digits \<Longrightarrow> is_ascii_digit c"
  by (auto simp: digits_def is_ascii_digit_def)

subsection \<open>Registration: both paths\<close>

lemma generate_vehicle_id_Inr:
  "\<exists>vid g'. generate_vehicle_id 12 g = (Inr vid, g') \<and> length vid = 12 \<and> list_all is_ascii_upper vid"
proof -
  have ne: "ascii_uppercase \<noteq> []" by (simp add: ascii_uppercase_def)
  from choices_Inr [OF ne, of 12 g] obtain xs g'
    where "choices ascii_uppercase 12 g = (Inr xs, g')" "length xs = 12" "set xs \<subseteq> set ascii_uppercase"
    by blast
  then show ?thesis
    by (auto simp: generate_vehicle_id_def list_all_iff dest: ascii_uppercase_upper)
qed

lemma length_2_conv: "length xs = 2 \<Longrightarrow> \<exists>a b. xs = [a, b]"
  by (cases xs; cases "tl xs") auto

lemma generate_vehicle_license_Inr:
  "\<exists>d1 d2 l1 l2 g'.
     generate_vehicle_license ident g = (Inr (take 2 ident @ [CHR ''-'', d1, d2, CHR ''-'', l1, l2]), g') \<and>
     is_ascii_digit d1 \<and> is_ascii_digit d2 \<and> is_ascii_upper l1 \<and> is_ascii_upper l2"
proof -
  have ne: "ascii_uppercase \<noteq> []" "digits \<noteq> []" by (simp_all add: ascii_uppercase_def digits_def)
  from choices_Inr [OF ne(2), of 2 g] obtain ds g1
    where ds: "choices digits 2 g = (Inr ds, g1)" "length ds = 2" "set ds \<subseteq> set digits"
    by blast
  from choices_Inr [OF ne(1), of 2 g1] obtain ls g2
    where ls: "choices ascii_uppercase 2 g1 = (Inr ls, g2)" "length ls = 2" "set ls \<subseteq> set ascii_uppercase"
    by blast
  from ds(2) obtain d1 d2 where d: "ds = [d1, d2]" using length_2_conv by blast
  from ls(2) obtain l1 l2 where l: "ls = [l1, l2]" using length_2_conv by blast
  have "is_ascii_digit d1" "is_ascii_digit d2" using ds(3) d by (auto intro: digits_digit)
  moreover have "is_ascii_upper l1" "is_ascii_upper l2" using ls(3) l by (auto intro: ascii_uppercase_upper)
  moreover have "generate_vehicle_license ident g = (Inr (take 2 ident @ [CHR ''-'', d1, d2, CHR ''-'', l1, l2]), g2)"
    using ds(1) ls(1) d l by (simp add: generate_vehicle_license_def)
  ultimately show ?thesis by blast
qed

lemma register_vehicle_Some:
  assumes "Mapping.lookup (vehicle_models self) (b, m) = Some i"
  shows "\<exists>vid d1 d2 l1 l2 g'.
     register_vehicle self g b m =
       (Inr \<lparr>vehicle_id = vid,
             license_plate = take 2 vid @ [CHR ''-'', d1, d2, CHR ''-'', l1, l2],
             info = i\<rparr>, self, g') \<and>
     length vid = 12 \<and> list_all is_ascii_upper vid \<and>
     is_ascii_digit d1 \<and> is_ascii_digit d2 \<and> is_ascii_upper l1 \<and> is_ascii_upper l2"
proof -
  from generate_vehicle_id_Inr [of g] obtain vid g1
    where v: "generate_vehicle_id 12 g = (Inr vid, g1)" "length vid = 12" "list_all is_ascii_upper vid"
    by blast
  from generate_vehicle_license_Inr [of vid g1] obtain d1 d2 l1 l2 g2
    where p: "generate_vehicle_license vid g1 = (Inr (take 2 vid @ [CHR ''-'', d1, d2, CHR ''-'', l1, l2]), g2)"
      "is_ascii_digit d1" "is_ascii_digit d2" "is_ascii_upper l1" "is_ascii_upper l2"
    by blast
  have "register_vehicle self g b m =
       (Inr \<lparr>vehicle_id = vid,
             license_plate = take 2 vid @ [CHR ''-'', d1, d2, CHR ''-'', l1, l2],
             info = i\<rparr>, self, g2)"
    using assms v(1) p(1) by (simp add: register_vehicle_def find_model_info_def)
  with v(2,3) p(2-) show ?thesis by blast
qed

lemma register_vehicle_None:
  assumes "Mapping.lookup (vehicle_models self) (b, m) = None"
  shows "register_vehicle self g b m = (Inl (VehicleInfoMissingError b m default_message), self, g)"
  using assms by (simp add: register_vehicle_def find_model_info_def)

subsection \<open>The demonstration registry\<close>

lemmas example_defs = example_year_def tesla_model_3_def volkswagen_id3_def bmw_520e_def tesla_model_y_def
  main_registry_def new_VehicleModelInfo_def new_VehicleRegistry_def add_vehicle_model_info_def

lemma main_registry_lookup_bmw:
  "Mapping.lookup (vehicle_models main_registry) (''BMW'', ''520e'') = Some bmw_520e"
  by (simp add: example_defs)

lemma main_registry_lookup_ford:
  "Mapping.lookup (vehicle_models main_registry) (''Ford'', ''Focus'') = None"
  by (simp add: example_defs)

text \<open>One run, with the draws 7, 4, 18 repeating.\<close>

lemma choices_numeral:
  "choices population (numeral n) g =
     (if population = [] then (Inl IndexError, stl g)
      else (case choices population (pred_numeral n) (stl g) of
              (Inl e, g') \<Rightarrow> (Inl e, g')
            | (Inr rest, g') \<Rightarrow> (Inr (population ! (shd g mod length population) # rest), g')))"
  by (simp add: numeral_eq_Suc)

lemma generate_vehicle_id_example:
  "generate_vehicle_id 12 (cycle [7, 4, 18]) = (Inr ''HESHESHESHES'', cycle [7, 4, 18])"
  by (simp add: generate_vehicle_id_def ascii_uppercase_def choices_numeral)

lemma generate_vehicle_license_example:
  "generate_vehicle_license ''HESHESHESHES'' (cycle [7, 4, 18]) = (Inr ''HE-74-SH'', cycle [4, 18, 7])"
  by (simp add: generate_vehicle_license_def ascii_uppercase_def digits_def choices_numeral)

lemma register_vehicle_example:
  "register_vehicle main_registry (cycle [7, 4, 18]) ''BMW'' ''520e'' =
     (Inr \<lparr>vehicle_id = ''HESHESHESHES'', license_plate = ''HE-74-SH'', info = bmw_520e\<rparr>,
      main_registry, cycle [4, 18, 7])"
  by (simp add: register_vehicle_def find_model_info_def main_registry_lookup_bmw
      generate_vehicle_id_example generate_vehicle_license_example)

lemma take_2_of_12: "length xs = 12 \<Longrightarrow> take 2 xs = [xs ! 0, xs ! 1]"
  by (cases xs; cases "tl xs") auto

subsection \<open>Insertions and lookups\<close>

lemma lookup_add_vehicle_model_info:
  "Mapping.lookup (vehicle_models (add_vehicle_model_info self i)) k =
     (if k = (brand i, model i) then Some i else Mapping.lookup (vehicle_models self) k)"
  by (simp add: add_vehicle_model_info_def Mapping.lookup_update')

lemma online_add_vehicle_model_info: "online (add_vehicle_model_info self i) = online self"
  by (simp add: add_vehicle_model_info_def)

lemma lookup_foldl_add:
  "Mapping.lookup (vehicle_models (foldl add_vehicle_model_info r infos)) k =
     (case List.find (\<lambda>j. (brand j, model j) = k) (rev infos) of
        Some j \<Rightarrow> Some j
      | None \<Rightarrow> Mapping.lookup (vehicle_models r) k)"
  by (induction infos rule: rev_induct) (auto simp: lookup_add_vehicle_model_info)

lemma find_append_conv:
  "List.find P (xs @ ys) = (case List.find P xs of None \<Rightarrow> List.find P ys | Some x \<Rightarrow> Some x)"
  by (induction xs) auto

subsection \<open>Rounding to a float\<close>

text \<open>
  Rounding to the nearest value with \<open>s\<close> bits fewer is off by at most half of the last
  bit kept, and a product rounded to 53 bits by at most \<open>2 ^ - 53\<close> of its value.
\<close>

lemma round_half_even_error:
  assumes "0 < s"
  shows "\<bar>round_half_even M s * 2 ^ s - M\<bar> \<le> 2 ^ (s - 1)"
proof -
  define q r h where "q = M div 2 ^ s" and "r = M mod 2 ^ s" and "h = (2::int) ^ (s - 1)"
  have twoh: "(2::int) ^ s = 2 * h"
    using assms by (cases s) (simp_all add: h_def)
  have M: "M = q * (2 * h) + r"
    unfolding q_def r_def twoh [symmetric] by (simp only: div_mult_mod_eq)
  have r: "0 \<le> r" "r < 2 * h"
    unfolding r_def twoh [symmetric] by simp_all
  have rhe: "round_half_even M s = (if r < h \<or> (r = h \<and> even q) then q else q + 1)"
    using assms by (simp add: round_half_even_def q_def r_def h_def Let_def)
  have "\<bar>(if r < h \<or> (r = h \<and> even q) then q else q + 1) * (2 * h) - (q * (2 * h) + r)\<bar> \<le> h"
    using r by (auto simp: algebra_simps)
  then show ?thesis
    unfolding rhe twoh h_def [symmetric] using M by simp
qed

lemma round_half_even_bound:
  assumes "0 < s" "s \<le> n" "\<bar>M\<bar> < 2 ^ n"
  shows "\<bar>round_half_even M s\<bar> \<le> 2 ^ (n - s)"
proof -
  let ?k = "round_half_even M s"
  have e: "\<bar>?k * 2 ^ s - M\<bar> \<le> 2 ^ (s - 1)" by (rule round_half_even_error [OF assms(1)])
  have "(2::int) ^ (s - 1) < 2 ^ s" using assms(1) by simp
  with e assms(3) have "\<bar>?k * 2 ^ s\<bar> < 2 ^ n + 2 ^ s" by linarith
  also have "(2::int) ^ n + 2 ^ s = (2 ^ (n - s) + 1) * 2 ^ s"
    using assms(2) by (simp add: algebra_simps flip: power_add)
  finally have "\<bar>?k\<bar> * 2 ^ s < (2 ^ (n - s) + 1) * 2 ^ s"
    by (simp add: abs_mult)
  then have "\<bar>?k\<bar> < 2 ^ (n - s) + 1"
    by (simp add: mult_less_cancel_right)
  then show ?thesis by simp
qed

lemma round_double_exact:
  assumes "bitlen \<bar>M\<bar> \<le> 53" "- 1074 \<le> E + bitlen \<bar>M\<bar> - 53" "E + bitlen \<bar>M\<bar> \<le> 1024"
  shows "round_double M E = Finite M E"
  using assms by (simp add: round_double_def Let_def max_def)

lemma round_double_rounded:
  assumes n: "53 < bitlen \<bar>M\<bar>"
    and lo: "- 1074 \<le> E + bitlen \<bar>M\<bar> - 53"
    and hi: "E + bitlen \<bar>M\<bar> \<le> 1023"
  shows "\<exists>k. round_double M E = Finite k (E + bitlen \<bar>M\<bar> - 53) \<and>
             \<bar>k * 2 ^ nat (bitlen \<bar>M\<bar> - 53) - M\<bar> * 2 ^ 53 \<le> \<bar>M\<bar>"
proof -
  define s where "s = nat (bitlen \<bar>M\<bar> - 53)"
  define k where "k = round_half_even M s"
  have s: "0 < s" "int s = bitlen \<bar>M\<bar> - 53" using n by (simp_all add: s_def)
  have pos: "0 < \<bar>M\<bar>" using n by (cases "M = 0") simp_all
  from bitlen_bounds [OF pos]
  have b: "2 ^ nat (bitlen \<bar>M\<bar> - 1) \<le> \<bar>M\<bar>" "\<bar>M\<bar> < 2 ^ nat (bitlen \<bar>M\<bar>)" by simp_all
  have sn: "s \<le> nat (bitlen \<bar>M\<bar>)" "nat (bitlen \<bar>M\<bar>) - s = 53" using n by (simp_all add: s_def)
  from round_half_even_bound [OF s(1) sn(1) b(2)] have "\<bar>k\<bar> \<le> 2 ^ 53"
    by (simp add: k_def sn(2))
  then have "\<bar>k\<bar> < 2 ^ nat 54" by simp
  then have kb: "bitlen \<bar>k\<bar> \<le> 54" by (simp add: bitlen_le_iff_power)
  have q: "max (E + bitlen \<bar>M\<bar> - 53) (- 1074) = E + bitlen \<bar>M\<bar> - 53" using lo by simp
  have "round_double M E = Finite k (E + bitlen \<bar>M\<bar> - 53)"
    unfolding round_double_def q Let_def using n kb hi
    by (simp add: k_def s_def)
  moreover have "\<bar>k * 2 ^ s - M\<bar> * 2 ^ 53 \<le> \<bar>M\<bar>"
  proof -
    have "\<bar>k * 2 ^ s - M\<bar> \<le> 2 ^ (s - 1)"
      unfolding k_def by (rule round_half_even_error [OF s(1)])
    then have "\<bar>k * 2 ^ s - M\<bar> * 2 ^ 53 \<le> 2 ^ (s - 1) * 2 ^ 53" by simp
    also have "(2::int) ^ (s - 1) * 2 ^ 53 = 2 ^ nat (bitlen \<bar>M\<bar> - 1)"
    proof -
      have "s - 1 + 53 = nat (bitlen \<bar>M\<bar> - 1)" using n unfolding s_def by linarith
      then show ?thesis by (simp only: flip: power_add)
    qed
    finally show ?thesis using b(1) by linarith
  qed
  ultimately show ?thesis unfolding s_def by blast
qed

lemma round_double_relative_error:
  assumes lo: "- 1074 \<le> E + bitlen \<bar>M\<bar> - 53" and hi: "E + bitlen \<bar>M\<bar> \<le> 1023"
  shows "\<exists>k e. round_double M E = Finite k e \<and>
           \<bar>real_of_int k * 2 powi e - real_of_int M * 2 powi E\<bar>
             \<le> \<bar>real_of_int M * 2 powi E\<bar> / 2 ^ 53"
proof (cases "bitlen \<bar>M\<bar> \<le> 53")
  case True
  with lo hi have "round_double M E = Finite M E" by (intro round_double_exact) simp_all
  then show ?thesis by simp
next
  case False
  then have n: "53 < bitlen \<bar>M\<bar>" by simp
  define s where "s = nat (bitlen \<bar>M\<bar> - 53)"
  from round_double_rounded [OF n lo hi] obtain k
    where k: "round_double M E = Finite k (E + bitlen \<bar>M\<bar> - 53)"
      and e: "\<bar>k * 2 ^ s - M\<bar> * 2 ^ 53 \<le> \<bar>M\<bar>"
    unfolding s_def by blast
  have es: "E + bitlen \<bar>M\<bar> - 53 = E + int s" using n by (simp add: s_def)
  have p: "(2::real) powi (E + int s) = 2 powi E * 2 ^ s"
    by (simp add: power_int_add)
  have "real_of_int k * 2 powi (E + int s) - real_of_int M * 2 powi E
          = real_of_int (k * 2 ^ s - M) * 2 powi E"
    by (simp add: p algebra_simps)
  then have "\<bar>real_of_int k * 2 powi (E + int s) - real_of_int M * 2 powi E\<bar>
          = real_of_int \<bar>k * 2 ^ s - M\<bar> * 2 powi E"
    by (simp add: abs_mult)
  moreover from e have "real_of_int (\<bar>k * 2 ^ s - M\<bar> * 2 ^ 53) \<le> real_of_int \<bar>M\<bar>"
    by (rule of_int_le_iff [THEN iffD2])
  then have "real_of_int \<bar>k * 2 ^ s - M\<bar> \<le> real_of_int \<bar>M\<bar> / 2 ^ 53"
    by (simp add: pos_le_divide_eq)
  then have "real_of_int \<bar>k * 2 ^ s - M\<bar> * 2 powi E \<le> real_of_int \<bar>M\<bar> / 2 ^ 53 * 2 powi E"
    by (intro mult_right_mono) simp_all
  moreover have "\<bar>real_of_int M * 2 powi E\<bar> / 2 ^ 53 = real_of_int \<bar>M\<bar> / 2 ^ 53 * 2 powi E"
    by (simp add: abs_mult)
  ultimately show ?thesis using k es by auto
qed

subsection \<open>Rounding is to the nearest float\<close>

text \<open>
  The rounded significand is a nearest multiple of the last bit kept, and even where two
  are equally near. A float off that grid is smaller in absolute value than the least
  grid point of the binade, so it is farther away than the rounded value.
\<close>

lemma round_half_even_nearest:
  assumes "0 < s"
  shows "\<bar>round_half_even M s * 2 ^ s - M\<bar> \<le> \<bar>k' * 2 ^ s - M\<bar>"
proof (cases "k' = round_half_even M s")
  case True
  then show ?thesis by simp
next
  case False
  let ?k = "round_half_even M s"
  define h where "h = (2::int) ^ (s - 1)"
  have twoh: "(2::int) ^ s = 2 * h"
    using assms by (cases s) (simp_all add: h_def)
  have e: "\<bar>?k * (2 * h) - M\<bar> \<le> h"
    using round_half_even_error [OF assms, of M] by (simp add: twoh h_def)
  from False have "1 \<le> \<bar>k' - ?k\<bar>" by simp
  moreover have hpos: "0 < h" by (simp add: h_def)
  ultimately have "2 * h \<le> \<bar>k' - ?k\<bar> * (2 * h)" by simp
  moreover have "\<bar>k' * (2 * h) - ?k * (2 * h)\<bar> = \<bar>k' - ?k\<bar> * (2 * h)"
    using hpos by (simp add: abs_mult flip: left_diff_distrib)
  ultimately have "2 * h \<le> \<bar>k' * (2 * h) - ?k * (2 * h)\<bar>" by simp
  with e show ?thesis unfolding twoh by linarith
qed

lemma round_half_even_tie:
  assumes "0 < s" "\<bar>round_half_even M s * 2 ^ s - M\<bar> = 2 ^ (s - 1)"
  shows "even (round_half_even M s)"
proof -
  define q r h where "q = M div 2 ^ s" and "r = M mod 2 ^ s" and "h = (2::int) ^ (s - 1)"
  have twoh: "(2::int) ^ s = 2 * h"
    using assms(1) by (cases s) (simp_all add: h_def)
  have M: "M = q * (2 * h) + r"
    unfolding q_def r_def twoh [symmetric] by (simp only: div_mult_mod_eq)
  have r: "0 \<le> r" "r < 2 * h"
    unfolding r_def twoh [symmetric] by simp_all
  have rhe: "round_half_even M s = (if r < h \<or> (r = h \<and> even q) then q else q + 1)"
    using assms(1) by (simp add: round_half_even_def q_def r_def h_def Let_def)
  from assms(2) have "\<bar>round_half_even M s * (2 * h) - (q * (2 * h) + r)\<bar> = h"
    unfolding twoh h_def [symmetric] using M by simp
  then show ?thesis
    unfolding rhe using r by (auto simp: algebra_simps split: if_splits)
qed

lemma round_half_even_tie_even:
  assumes "0 < s" "k' \<noteq> round_half_even M s"
    and "\<bar>k' * 2 ^ s - M\<bar> \<le> \<bar>round_half_even M s * 2 ^ s - M\<bar>"
  shows "even (round_half_even M s)"
proof -
  let ?k = "round_half_even M s"
  define h where "h = (2::int) ^ (s - 1)"
  have twoh: "(2::int) ^ s = 2 * h"
    using assms(1) by (cases s) (simp_all add: h_def)
  have e: "\<bar>?k * (2 * h) - M\<bar> \<le> h"
    using round_half_even_error [OF assms(1), of M] by (simp add: twoh h_def)
  from assms(2) have "1 \<le> \<bar>k' - ?k\<bar>" by simp
  moreover have hpos: "0 < h" by (simp add: h_def)
  ultimately have "2 * h \<le> \<bar>k' - ?k\<bar> * (2 * h)" by simp
  moreover have "\<bar>k' * (2 * h) - ?k * (2 * h)\<bar> = \<bar>k' - ?k\<bar> * (2 * h)"
    using hpos by (simp add: abs_mult flip: left_diff_distrib)
  ultimately have "2 * h \<le> \<bar>k' * (2 * h) - ?k * (2 * h)\<bar>" by simp
  with e assms(3) have "\<bar>?k * (2 * h) - M\<bar> = h" unfolding twoh by linarith
  then have "\<bar>?k * 2 ^ s - M\<bar> = 2 ^ (s - 1)" by (simp add: twoh h_def)
  with assms(1) show ?thesis by (rule round_half_even_tie)
qed

lemma round_half_even_lower:
  assumes "0 < s" "2 ^ (52 + s) \<le> \<bar>M\<bar>"
  shows "2 ^ 52 \<le> \<bar>round_half_even M s\<bar>"
proof -
  let ?k = "round_half_even M s"
  have e: "\<bar>?k * 2 ^ s - M\<bar> \<le> 2 ^ (s - 1)" by (rule round_half_even_error [OF assms(1)])
  have "(2::int) ^ (s - 1) < 2 ^ s" using assms(1) by simp
  with e assms(2) have "2 ^ (52 + s) - 2 ^ s < \<bar>?k * 2 ^ s\<bar>" by linarith
  also have "(2::int) ^ (52 + s) - 2 ^ s = (2 ^ 52 - 1) * 2 ^ s"
    by (simp add: algebra_simps power_add)
  finally have "(2 ^ 52 - 1) * 2 ^ s < \<bar>?k\<bar> * 2 ^ s"
    by (simp add: abs_mult)
  then have "2 ^ 52 - 1 < \<bar>?k\<bar>"
    by (simp only: mult_less_cancel_right) simp
  then show ?thesis by simp
qed

lemma grid_point_real:
  assumes "int s \<le> d"
  shows "real_of_int m' * 2 powi d = real_of_int (m' * 2 ^ nat (d - int s) * 2 ^ s)"
proof -
  define j where "j = nat (d - int s)"
  have d: "int j + int s = d" using assms by (simp add: j_def)
  have "(2::real) powi (int j + int s) = 2 powi int j * 2 powi int s"
    by (rule power_int_add) simp
  then have "(2::real) powi d = 2 ^ j * 2 ^ s" by (simp only: d power_int_of_nat)
  then show ?thesis by (simp add: j_def)
qed

lemma off_grid_farther:
  assumes s: "0 < s" and M: "2 ^ (52 + s) \<le> \<bar>M\<bar>" and m': "\<bar>m'\<bar> < 2 ^ 53" and d: "d < int s"
  shows "real_of_int \<bar>round_half_even M s * 2 ^ s - M\<bar> < \<bar>real_of_int m' * 2 powi d - real_of_int M\<bar>"
proof -
  let ?k = "round_half_even M s"
  define B where "B = (2::int) ^ (52 + s)"
  define k0 where "k0 = (if 0 \<le> M then (2::int) ^ 52 else - (2 ^ 52))"
  have "k0 * 2 ^ s = (if 0 \<le> M then B else - B)" by (simp add: k0_def B_def power_add)
  with M have "\<bar>k0 * 2 ^ s - M\<bar> = \<bar>M\<bar> - B" unfolding B_def by (simp split: if_splits)
  with round_half_even_nearest [OF s, of M k0] have near: "\<bar>?k * 2 ^ s - M\<bar> \<le> \<bar>M\<bar> - B" by simp
  have "(2::real) powi d \<le> 2 powi (int s - 1)"
    using d by (intro power_int_increasing) simp_all
  also have "int s - 1 = int (s - 1)" using s by simp
  finally have p: "(2::real) powi d \<le> 2 ^ (s - 1)" by simp
  have p0: "0 < (2::real) powi d" by simp
  have "\<bar>real_of_int m' * 2 powi d\<bar> = real_of_int \<bar>m'\<bar> * 2 powi d" by (simp add: abs_mult)
  also have "\<dots> < 2 ^ 53 * 2 powi d"
  proof -
    from m' have "real_of_int \<bar>m'\<bar> < 2 ^ 53"
      by (metis of_int_less_iff of_int_numeral of_int_power)
    with p0 show ?thesis by (simp only: mult_less_cancel_right_pos)
  qed
  also have "\<dots> \<le> 2 ^ 53 * 2 ^ (s - 1)" using p by simp
  also have "\<dots> = real_of_int B"
  proof -
    have "53 + (s - 1) = 52 + s" using s by simp
    then show ?thesis unfolding B_def by (simp only: of_int_power of_int_numeral flip: power_add)
  qed
  finally have y: "\<bar>real_of_int m' * 2 powi d\<bar> < real_of_int B" .
  have "real_of_int \<bar>?k * 2 ^ s - M\<bar> \<le> real_of_int (\<bar>M\<bar> - B)"
    using near by (simp only: of_int_le_iff)
  also have "\<dots> = \<bar>real_of_int M\<bar> - real_of_int B" by simp
  also have "\<dots> < \<bar>real_of_int M\<bar> - \<bar>real_of_int m' * 2 powi d\<bar>" using y by simp
  also have "\<dots> \<le> \<bar>real_of_int m' * 2 powi d - real_of_int M\<bar>" by linarith
  finally show ?thesis .
qed

lemma grid_nearest_real:
  assumes s: "0 < s" and M: "2 ^ (52 + s) \<le> \<bar>M\<bar>" and m': "\<bar>m'\<bar> < 2 ^ 53"
  shows "real_of_int \<bar>round_half_even M s * 2 ^ s - M\<bar> \<le> \<bar>real_of_int m' * 2 powi d - real_of_int M\<bar>"
proof (cases "int s \<le> d")
  case True
  define k' where "k' = m' * 2 ^ nat (d - int s)"
  have y: "real_of_int m' * 2 powi d = real_of_int (k' * 2 ^ s)"
    unfolding k'_def by (rule grid_point_real [OF True])
  have "real_of_int \<bar>round_half_even M s * 2 ^ s - M\<bar> \<le> real_of_int \<bar>k' * 2 ^ s - M\<bar>"
    using round_half_even_nearest [OF s, of M k'] by (simp only: of_int_le_iff)
  then show ?thesis unfolding y by simp
next
  case False
  then have "d < int s" by simp
  from off_grid_farther [OF s M m' this] show ?thesis by simp
qed

lemma grid_tie_even_real:
  assumes s: "0 < s" and M: "2 ^ (52 + s) \<le> \<bar>M\<bar>" and m': "\<bar>m'\<bar> < 2 ^ 53"
    and ne: "real_of_int m' * 2 powi d \<noteq> real_of_int (round_half_even M s * 2 ^ s)"
    and le: "\<bar>real_of_int m' * 2 powi d - real_of_int M\<bar> \<le> real_of_int \<bar>round_half_even M s * 2 ^ s - M\<bar>"
  shows "even (round_half_even M s)"
proof (cases "int s \<le> d")
  case True
  define k' where "k' = m' * 2 ^ nat (d - int s)"
  have y: "real_of_int m' * 2 powi d = real_of_int (k' * 2 ^ s)"
    unfolding k'_def by (rule grid_point_real [OF True])
  from ne have "k' \<noteq> round_half_even M s" unfolding y by auto
  moreover from le have "real_of_int \<bar>k' * 2 ^ s - M\<bar> \<le> real_of_int \<bar>round_half_even M s * 2 ^ s - M\<bar>"
    unfolding y by simp
  then have "\<bar>k' * 2 ^ s - M\<bar> \<le> \<bar>round_half_even M s * 2 ^ s - M\<bar>"
    by (simp only: of_int_le_iff)
  ultimately show ?thesis using s round_half_even_tie_even by blast
next
  case False
  then have "d < int s" by simp
  from off_grid_farther [OF s M m' this] le show ?thesis by simp
qed

lemma round_double_rounded_eq:
  assumes n: "53 < bitlen \<bar>M\<bar>"
    and lo: "- 1074 \<le> E + bitlen \<bar>M\<bar> - 53"
    and hi: "E + bitlen \<bar>M\<bar> \<le> 1023"
  shows "round_double M E =
           Finite (round_half_even M (nat (bitlen \<bar>M\<bar> - 53))) (E + int (nat (bitlen \<bar>M\<bar> - 53)))"
    and "\<bar>round_half_even M (nat (bitlen \<bar>M\<bar> - 53))\<bar> \<le> 2 ^ 53"
    and "2 ^ (52 + nat (bitlen \<bar>M\<bar> - 53)) \<le> \<bar>M\<bar>"
proof -
  define s where "s = nat (bitlen \<bar>M\<bar> - 53)"
  define k where "k = round_half_even M s"
  have s: "0 < s" "int s = bitlen \<bar>M\<bar> - 53" using n by (simp_all add: s_def)
  have pos: "0 < \<bar>M\<bar>" using n by (cases "M = 0") simp_all
  from bitlen_bounds [OF pos]
  have b: "2 ^ nat (bitlen \<bar>M\<bar> - 1) \<le> \<bar>M\<bar>" "\<bar>M\<bar> < 2 ^ nat (bitlen \<bar>M\<bar>)" by simp_all
  have sn: "s \<le> nat (bitlen \<bar>M\<bar>)" "nat (bitlen \<bar>M\<bar>) - s = 53" using n by (simp_all add: s_def)
  from round_half_even_bound [OF s(1) sn(1) b(2)] show kk: "\<bar>round_half_even M (nat (bitlen \<bar>M\<bar> - 53))\<bar> \<le> 2 ^ 53"
    by (simp add: s_def [symmetric] sn(2))
  then have "\<bar>k\<bar> < 2 ^ nat 54" by (simp add: k_def s_def)
  then have kb: "bitlen \<bar>k\<bar> \<le> 54" by (simp add: bitlen_le_iff_power)
  have q: "max (E + bitlen \<bar>M\<bar> - 53) (- 1074) = E + bitlen \<bar>M\<bar> - 53" using lo by simp
  have "round_double M E = Finite k (E + bitlen \<bar>M\<bar> - 53)"
    unfolding round_double_def q Let_def using n kb hi
    by (simp add: k_def s_def)
  then show "round_double M E =
           Finite (round_half_even M (nat (bitlen \<bar>M\<bar> - 53))) (E + int (nat (bitlen \<bar>M\<bar> - 53)))"
    using n by (simp add: k_def s_def)
  have "52 + s = nat (bitlen \<bar>M\<bar> - 1)" using n unfolding s_def by linarith
  with b(1) show "2 ^ (52 + nat (bitlen \<bar>M\<bar> - 53)) \<le> \<bar>M\<bar>" by (simp add: s_def)
qed

lemma round_double_nearest:
  assumes lo: "- 1074 \<le> E + bitlen \<bar>M\<bar> - 53" and hi: "E + bitlen \<bar>M\<bar> \<le> 1023"
  shows "\<exists>k e. round_double M E = Finite k e \<and> \<bar>k\<bar> \<le> 2 ^ 53 \<and>
           E \<le> e \<and> e \<le> max E (E + bitlen \<bar>M\<bar> - 53) \<and>
           (\<forall>m' e'. \<bar>m'\<bar> < 2 ^ 53 \<longrightarrow>
              \<bar>real_of_int k * 2 powi e - real_of_int M * 2 powi E\<bar>
                \<le> \<bar>real_of_int m' * 2 powi e' - real_of_int M * 2 powi E\<bar>) \<and>
           (\<forall>m' e'. \<bar>m'\<bar> < 2 ^ 53 \<and>
              real_of_int m' * 2 powi e' \<noteq> real_of_int k * 2 powi e \<and>
              \<bar>real_of_int m' * 2 powi e' - real_of_int M * 2 powi E\<bar>
                \<le> \<bar>real_of_int k * 2 powi e - real_of_int M * 2 powi E\<bar> \<longrightarrow>
              even k \<and> 2 ^ 52 \<le> \<bar>k\<bar>)"
proof (cases "bitlen \<bar>M\<bar> \<le> 53")
  case True
  with lo hi have r: "round_double M E = Finite M E" by (intro round_double_exact) simp_all
  from True have "\<bar>M\<bar> < 2 ^ nat 53" by (simp only: bitlen_le_iff_power)
  then have "\<bar>M\<bar> \<le> 2 ^ 53" by simp
  with r show ?thesis by (intro exI [of _ M] exI [of _ E]) auto
next
  case False
  then have n: "53 < bitlen \<bar>M\<bar>" by simp
  define s where "s = nat (bitlen \<bar>M\<bar> - 53)"
  define k where "k = round_half_even M s"
  note r = round_double_rounded_eq [OF n lo hi, folded s_def, folded k_def]
  have s: "0 < s" "E + int s = E + bitlen \<bar>M\<bar> - 53" using n by (simp_all add: s_def)
  have P: "0 < (2::real) powi E" by simp
  have pk: "(2::real) powi (E + int s) = 2 powi E * 2 ^ s"
    by (simp add: power_int_add)
  have v: "real_of_int k * 2 powi (E + int s) = real_of_int (k * 2 ^ s) * 2 powi E"
    by (simp add: pk)
  have dv: "\<bar>real_of_int k * 2 powi (E + int s) - real_of_int M * 2 powi E\<bar>
          = real_of_int \<bar>k * 2 ^ s - M\<bar> * 2 powi E"
  proof -
    have "real_of_int k * 2 powi (E + int s) - real_of_int M * 2 powi E
            = real_of_int (k * 2 ^ s - M) * 2 powi E"
      by (simp add: pk algebra_simps)
    then show ?thesis by (simp add: abs_mult)
  qed
  have y: "real_of_int m' * 2 powi e' = (real_of_int m' * 2 powi (e' - E)) * 2 powi E" for m' e'
    using power_int_add [of "2::real" "e' - E" E] by simp
  have dy: "\<bar>real_of_int m' * 2 powi e' - real_of_int M * 2 powi E\<bar>
          = \<bar>real_of_int m' * 2 powi (e' - E) - real_of_int M\<bar> * 2 powi E" for m' e'
  proof -
    have "real_of_int m' * 2 powi e' - real_of_int M * 2 powi E
            = (real_of_int m' * 2 powi (e' - E) - real_of_int M) * 2 powi E"
      using y [of m' e'] by (simp add: algebra_simps)
    then show ?thesis by (simp add: abs_mult)
  qed
  have near: "\<bar>real_of_int k * 2 powi (E + int s) - real_of_int M * 2 powi E\<bar>
                \<le> \<bar>real_of_int m' * 2 powi e' - real_of_int M * 2 powi E\<bar>"
    if "\<bar>m'\<bar> < 2 ^ 53" for m' e'
    unfolding dv dy using grid_nearest_real [OF s(1) r(3) that, of "e' - E"] P
    by (simp add: k_def)
  have tie: "even k \<and> 2 ^ 52 \<le> \<bar>k\<bar>"
    if m: "\<bar>m'\<bar> < 2 ^ 53"
      and ne: "real_of_int m' * 2 powi e' \<noteq> real_of_int k * 2 powi (E + int s)"
      and le: "\<bar>real_of_int m' * 2 powi e' - real_of_int M * 2 powi E\<bar>
                \<le> \<bar>real_of_int k * 2 powi (E + int s) - real_of_int M * 2 powi E\<bar>"
    for m' e'
  proof -
    from ne have "real_of_int m' * 2 powi (e' - E) \<noteq> real_of_int (k * 2 ^ s)"
      unfolding v y [of m' e'] by simp
    moreover from le have "\<bar>real_of_int m' * 2 powi (e' - E) - real_of_int M\<bar>
        \<le> real_of_int \<bar>k * 2 ^ s - M\<bar>"
      unfolding dv dy using P by simp
    ultimately have "even k"
      using grid_tie_even_real [OF s(1) r(3) m, of "e' - E"] by (simp add: k_def)
    moreover have "2 ^ 52 \<le> \<bar>k\<bar>"
      unfolding k_def by (rule round_half_even_lower [OF s(1) r(3)])
    ultimately show ?thesis by simp
  qed
  have "E \<le> E + int s" "E + int s \<le> max E (E + bitlen \<bar>M\<bar> - 53)" using s by simp_all
  with r(1,2) near tie show ?thesis
    by (intro exI [of _ k] exI [of _ "E + int s"]) blast
qed

subsection \<open>The tax of a model\<close>

text \<open>
  A price below \<open>2 ^ 53\<close> in absolute value converts exactly, so the tax is the rounded
  product of the rate and the price. A price from \<open>2 ^ 1024\<close> on does not convert.
\<close>

lemma float_of_int_exact:
  assumes "\<bar>p\<bar> < 2 ^ 53"
  shows "float_of_int p = Inr (Finite p 0)"
proof -
  from assms have "\<bar>p\<bar> < 2 ^ nat 53" by simp
  then have b: "bitlen \<bar>p\<bar> \<le> 53" by (simp add: bitlen_le_iff_power)
  have "0 \<le> bitlen \<bar>p\<bar>" by (rule bitlen_nonneg)
  with b have "round_double p 0 = Finite p 0" by (intro round_double_exact) simp_all
  then show ?thesis by (simp add: float_of_int_def)
qed

lemma tax_small_price:
  assumes "\<bar>catalogue_price i\<bar> < 2 ^ 53" "taxes (fuel_type i) = Finite m e"
  shows "tax i = Inr (round_double (m * catalogue_price i) e)"
  using float_of_int_exact [OF assms(1)] assms(2) by (simp add: tax_def)

lemma bitlen_product_le:
  assumes "\<bar>m\<bar> < 2 ^ 53" "\<bar>p\<bar> < 2 ^ 53"
  shows "bitlen \<bar>m * p\<bar> \<le> 106"
proof -
  have "\<bar>m\<bar> * \<bar>p\<bar> < 2 ^ 53 * 2 ^ 53"
    using assms by (intro mult_strict_mono) simp_all
  then have "\<bar>m * p\<bar> < 2 ^ nat 106" by (simp add: abs_mult)
  then show ?thesis by (simp only: bitlen_le_iff_power) simp
qed

lemma tax_rounded_product:
  assumes p: "\<bar>catalogue_price i\<bar> < 2 ^ 53"
    and t: "taxes (fuel_type i) = Finite m e" and m: "\<bar>m\<bar> < 2 ^ 53" and e: "- 58 \<le> e" "e \<le> 0"
  shows "\<exists>k e'. tax i = Inr (Finite k e') \<and>
           \<bar>real_of_int k * 2 powi e' - real_of_int (m * catalogue_price i) * 2 powi e\<bar>
             \<le> \<bar>real_of_int (m * catalogue_price i) * 2 powi e\<bar> / 2 ^ 53"
proof -
  let ?M = "m * catalogue_price i"
  have b: "bitlen \<bar>?M\<bar> \<le> 106" by (rule bitlen_product_le [OF m p])
  have b0: "0 \<le> bitlen \<bar>?M\<bar>" by (rule bitlen_nonneg)
  from b b0 e have "- 1074 \<le> e + bitlen \<bar>?M\<bar> - 53" "e + bitlen \<bar>?M\<bar> \<le> 1023" by simp_all
  from round_double_relative_error [OF this] tax_small_price [OF p t] show ?thesis by auto
qed

lemma tax_electric_bound:
  assumes p: "\<bar>catalogue_price i\<bar> < 2 ^ 53" and f: "fuel_type i = ELECTRIC"
  shows "\<exists>t v. tax i = Inr t \<and> float_val t = Some v \<and>
           \<bar>v - 2 / 100 * real_of_int (catalogue_price i)\<bar>
             \<le> 2 / 100 * \<bar>real_of_int (catalogue_price i)\<bar> / 2 ^ 52"
proof -
  have t: "taxes (fuel_type i) = Finite 5764607523034235 (- 58)" by (simp add: f taxes_def)
  from tax_rounded_product [OF p t] obtain k e'
    where k: "tax i = Inr (Finite k e')"
      and r: "\<bar>real_of_int k * 2 powi e' - real_of_int (5764607523034235 * catalogue_price i) * 2 powi (- 58)\<bar>
             \<le> \<bar>real_of_int (5764607523034235 * catalogue_price i) * 2 powi (- 58)\<bar> / 2 ^ 53"
    by auto
  define v where "v = real_of_int k * 2 powi e'"
  define x where "x = real_of_int (catalogue_price i)"
  from r have "\<bar>v - 5764607523034235 / 2 ^ 58 * x\<bar> \<le> 5764607523034235 / 2 ^ 58 * \<bar>x\<bar> / 2 ^ 53"
    by (simp add: v_def x_def power_int_minus abs_mult field_simps)
  then have "\<bar>v - 2 / 100 * x\<bar> \<le> 2 / 100 * \<bar>x\<bar> / 2 ^ 52"
    by (simp add: abs_if split: if_splits) 
  with k show ?thesis unfolding v_def x_def by auto
qed

lemma tax_petrol_bound:
  assumes p: "\<bar>catalogue_price i\<bar> < 2 ^ 53" and f: "fuel_type i = PETROL"
  shows "\<exists>t v. tax i = Inr t \<and> float_val t = Some v \<and>
           \<bar>v - 5 / 100 * real_of_int (catalogue_price i)\<bar>
             \<le> 5 / 100 * \<bar>real_of_int (catalogue_price i)\<bar> / 2 ^ 52"
proof -
  have t: "taxes (fuel_type i) = Finite 7205759403792794 (- 57)" by (simp add: f taxes_def)
  from tax_rounded_product [OF p t] obtain k e'
    where k: "tax i = Inr (Finite k e')"
      and r: "\<bar>real_of_int k * 2 powi e' - real_of_int (7205759403792794 * catalogue_price i) * 2 powi (- 57)\<bar>
             \<le> \<bar>real_of_int (7205759403792794 * catalogue_price i) * 2 powi (- 57)\<bar> / 2 ^ 53"
    by auto
  define v where "v = real_of_int k * 2 powi e'"
  define x where "x = real_of_int (catalogue_price i)"
  from r have "\<bar>v - 7205759403792794 / 2 ^ 57 * x\<bar> \<le> 7205759403792794 / 2 ^ 57 * \<bar>x\<bar> / 2 ^ 53"
    by (simp add: v_def x_def power_int_minus abs_mult field_simps)
  then have "\<bar>v - 5 / 100 * x\<bar> \<le> 5 / 100 * \<bar>x\<bar> / 2 ^ 52"
    by (simp add: abs_if split: if_splits) 
  with k show ?thesis unfolding v_def x_def by auto
qed

lemmas tax_eval = tax_def taxes_def float_of_int_def round_double_def round_half_even_def
  compute_bitlen Let_def

lemma tax_electric_50000:
  assumes "fuel_type i = ELECTRIC" "catalogue_price i = 50000"
  shows "tax i = Inr (Finite 8796093022208000 (- 43))"
  using assms by (simp add: tax_eval)

lemma tax_petrol_60000:
  assumes "fuel_type i = PETROL" "catalogue_price i = 60000"
  shows "tax i = Inr (Finite 6597069766656000 (- 41))"
  using assms by (simp add: tax_eval)

lemma taxes_nearest:
  "\<bar>5764607523034235 * 2 powi (- 58) - 2 / 100\<bar> < (2 powi (- 58) / 2 :: real)"
  "\<bar>7205759403792794 * 2 powi (- 57) - 5 / 100\<bar> < (2 powi (- 57) / 2 :: real)"
  "(2::int) ^ 52 \<le> 5764607523034235" "5764607523034235 < (2::int) ^ 53"
  "(2::int) ^ 52 \<le> 7205759403792794" "7205759403792794 < (2::int) ^ 53"
  by (simp_all add: power_int_minus)

lemma taxes_cases:
  "\<exists>m e. taxes ft = Finite m e \<and> \<bar>m\<bar> < 2 ^ 53 \<and> - 58 \<le> e \<and> e \<le> - 57"
  by (cases ft) (simp_all add: taxes_def)

lemma tax_nearest:
  assumes p: "\<bar>catalogue_price i\<bar> < 2 ^ 53"
  shows "\<exists>k e v r. tax i = Inr (Finite k e) \<and> float_val (Finite k e) = Some v \<and>
     float_val (taxes (fuel_type i)) = Some r \<and>
     \<bar>k\<bar> \<le> 2 ^ 53 \<and> - 1074 \<le> e \<and> e \<le> 970 \<and>
     (\<forall>m' e'. is_double m' e' \<longrightarrow>
        \<bar>v - r * real_of_int (catalogue_price i)\<bar>
          \<le> \<bar>real_of_int m' * 2 powi e' - r * real_of_int (catalogue_price i)\<bar>) \<and>
     (\<forall>m' e'. is_double m' e' \<and> real_of_int m' * 2 powi e' \<noteq> v \<and>
        \<bar>real_of_int m' * 2 powi e' - r * real_of_int (catalogue_price i)\<bar>
          \<le> \<bar>v - r * real_of_int (catalogue_price i)\<bar> \<longrightarrow>
        even k \<and> 2 ^ 52 \<le> \<bar>k\<bar>)"
proof -
  from taxes_cases [of "fuel_type i"] obtain m E
    where t: "taxes (fuel_type i) = Finite m E" and m: "\<bar>m\<bar> < 2 ^ 53" and E: "- 58 \<le> E" "E \<le> - 57"
    by blast
  let ?M = "m * catalogue_price i"
  define r where "r = real_of_int m * 2 powi E"
  have x: "real_of_int ?M * 2 powi E = r * real_of_int (catalogue_price i)"
    by (simp add: r_def)
  have b: "bitlen \<bar>?M\<bar> \<le> 106" by (rule bitlen_product_le [OF m p])
  have b0: "0 \<le> bitlen \<bar>?M\<bar>" by (rule bitlen_nonneg)
  from b b0 E have "- 1074 \<le> E + bitlen \<bar>?M\<bar> - 53" "E + bitlen \<bar>?M\<bar> \<le> 1023" by simp_all
  from round_double_nearest [OF this] obtain k e
    where k: "round_double ?M E = Finite k e" "\<bar>k\<bar> \<le> 2 ^ 53"
      "E \<le> e" "e \<le> max E (E + bitlen \<bar>?M\<bar> - 53)"
      and near: "\<And>m' e'. \<bar>m'\<bar> < 2 ^ 53 \<Longrightarrow>
              \<bar>real_of_int k * 2 powi e - real_of_int ?M * 2 powi E\<bar>
                \<le> \<bar>real_of_int m' * 2 powi e' - real_of_int ?M * 2 powi E\<bar>"
      and tie: "\<And>m' e'. \<bar>m'\<bar> < 2 ^ 53 \<Longrightarrow>
              real_of_int m' * 2 powi e' \<noteq> real_of_int k * 2 powi e \<Longrightarrow>
              \<bar>real_of_int m' * 2 powi e' - real_of_int ?M * 2 powi E\<bar>
                \<le> \<bar>real_of_int k * 2 powi e - real_of_int ?M * 2 powi E\<bar> \<Longrightarrow>
              even k \<and> 2 ^ 52 \<le> \<bar>k\<bar>"
    by blast
  define v where "v = real_of_int k * 2 powi e"
  have "tax i = Inr (Finite k e)" using tax_small_price [OF p t] k(1) by simp
  moreover have "float_val (Finite k e) = Some v" by (simp add: v_def)
  moreover have "float_val (taxes (fuel_type i)) = Some r" by (simp add: t r_def)
  moreover have "- 1074 \<le> e" "e \<le> 970" using k(3,4) E b by simp_all
  moreover have "\<bar>v - r * real_of_int (catalogue_price i)\<bar>
          \<le> \<bar>real_of_int m' * 2 powi e' - r * real_of_int (catalogue_price i)\<bar>"
    if "is_double m' e'" for m' e'
    using near [of m' e'] that unfolding x v_def is_double_def by simp
  moreover have "even k \<and> 2 ^ 52 \<le> \<bar>k\<bar>"
    if "is_double m' e'" "real_of_int m' * 2 powi e' \<noteq> v"
      "\<bar>real_of_int m' * 2 powi e' - r * real_of_int (catalogue_price i)\<bar>
          \<le> \<bar>v - r * real_of_int (catalogue_price i)\<bar>" for m' e'
    using tie [of m' e'] that unfolding x v_def is_double_def by simp
  ultimately show ?thesis using k(2) by blast
qed

lemma taxes_value:
  "float_val (taxes ft) =
     Some (case ft of ELECTRIC \<Rightarrow> 5764607523034235 / 2 ^ 58 | PETROL \<Rightarrow> 7205759403792794 / 2 ^ 57)"
  by (cases ft) (simp_all add: taxes_def power_int_minus)

lemma taxes_close:
  "\<bar>(case ft of ELECTRIC \<Rightarrow> 5764607523034235 / 2 ^ 58 | PETROL \<Rightarrow> 7205759403792794 / 2 ^ 57)
      - (case ft of ELECTRIC \<Rightarrow> (2::real) / 100 | PETROL \<Rightarrow> 5 / 100)\<bar>
     \<le> (case ft of ELECTRIC \<Rightarrow> 2 / 100 | PETROL \<Rightarrow> 5 / 100) / 2 ^ 54"
  by (cases ft) simp_all

lemma tax_bound:
  assumes p: "\<bar>catalogue_price i\<bar> < 2 ^ 53"
  shows "\<exists>t v. tax i = Inr t \<and> float_val t = Some v \<and>
     \<bar>v - (case fuel_type i of ELECTRIC \<Rightarrow> 2 / 100 | PETROL \<Rightarrow> 5 / 100)
            * real_of_int (catalogue_price i)\<bar>
       \<le> (case fuel_type i of ELECTRIC \<Rightarrow> 2 / 100 | PETROL \<Rightarrow> 5 / 100)
            * \<bar>real_of_int (catalogue_price i)\<bar> / 2 ^ 52 \<and>
     (fuel_type i = ELECTRIC \<and> catalogue_price i = 50000 \<longrightarrow> v = 1000) \<and>
     (fuel_type i = PETROL \<and> catalogue_price i = 60000 \<longrightarrow> v = 3000)"
proof (cases "fuel_type i")
  case ELECTRIC
  from tax_electric_bound [OF assms ELECTRIC] obtain t v
    where tv: "tax i = Inr t" "float_val t = Some v"
      "\<bar>v - 2 / 100 * real_of_int (catalogue_price i)\<bar>
         \<le> 2 / 100 * \<bar>real_of_int (catalogue_price i)\<bar> / 2 ^ 52"
    by blast
  have "v = 1000" if "catalogue_price i = 50000"
    using tax_electric_50000 [OF ELECTRIC that] tv(1,2) by (simp add: power_int_minus)
  with tv ELECTRIC show ?thesis by auto
next
  case PETROL
  from tax_petrol_bound [OF assms PETROL] obtain t v
    where tv: "tax i = Inr t" "float_val t = Some v"
      "\<bar>v - 5 / 100 * real_of_int (catalogue_price i)\<bar>
         \<le> 5 / 100 * \<bar>real_of_int (catalogue_price i)\<bar> / 2 ^ 52"
    by blast
  have "v = 3000" if "catalogue_price i = 60000"
    using tax_petrol_60000 [OF PETROL that] tv(1,2) by (simp add: power_int_minus)
  with tv PETROL show ?thesis by auto
qed

lemma tax_overflow_example:
  "tax \<lparr>brand = ''BMW'', model = ''520e'', catalogue_price = 2 ^ 1024, fuel_type = PETROL,
        production_year = 2024\<rparr> = Inl OverflowError"
  by (simp add: tax_eval)

section \<open>The claims\<close>

text \<open>
  Claim C1. For a pair \<open>(brand, model)\<close> present in the mapping, whatever the random source
  gives, \<open>register_vehicle\<close> returns a vehicle whose \<open>info\<close> is the stored model info, whose
  \<open>vehicle_id\<close> has 12 characters, all of them upper-case letters, and whose
  \<open>license_plate\<close> is the first two characters of the id, a dash, two digits, a dash and
  two upper-case letters.
\<close>

theorem register_vehicle_registered:
  assumes "Mapping.lookup (vehicle_models self) (b, m) = Some i"
  shows "\<exists>vid d1 d2 l1 l2.
     fst (register_vehicle self g b m) =
       Inr \<lparr>vehicle_id = vid,
            license_plate = [vid ! 0, vid ! 1, CHR ''-'', d1, d2, CHR ''-'', l1, l2],
            info = i\<rparr> \<and>
     length vid = 12 \<and> list_all is_ascii_upper vid \<and>
     is_ascii_digit d1 \<and> is_ascii_digit d2 \<and> is_ascii_upper l1 \<and> is_ascii_upper l2"
proof -
  from register_vehicle_Some [OF assms, of g] obtain vid d1 d2 l1 l2 g'
    where r: "register_vehicle self g b m =
       (Inr \<lparr>vehicle_id = vid,
             license_plate = take 2 vid @ [CHR ''-'', d1, d2, CHR ''-'', l1, l2],
             info = i\<rparr>, self, g')"
      and p: "length vid = 12" "list_all is_ascii_upper vid"
        "is_ascii_digit d1" "is_ascii_digit d2" "is_ascii_upper l1" "is_ascii_upper l2"
    by blast
  from r p(1) have "fst (register_vehicle self g b m) =
       Inr \<lparr>vehicle_id = vid,
            license_plate = [vid ! 0, vid ! 1, CHR ''-'', d1, d2, CHR ''-'', l1, l2],
            info = i\<rparr>"
    by (simp add: take_2_of_12)
  with p show ?thesis by blast
qed

theorem register_vehicle_registered_witness:
  "Mapping.lookup (vehicle_models main_registry) (''BMW'', ''520e'') = Some bmw_520e \<and>
   fst (register_vehicle main_registry (cycle [7, 4, 18]) ''BMW'' ''520e'') =
     Inr \<lparr>vehicle_id = ''HESHESHESHES'', license_plate = ''HE-74-SH'', info = bmw_520e\<rparr> \<and>
   (\<exists>vid d1 d2 l1 l2.
     fst (register_vehicle main_registry (cycle [7, 4, 18]) ''BMW'' ''520e'') =
       Inr \<lparr>vehicle_id = vid,
            license_plate = [vid ! 0, vid ! 1, CHR ''-'', d1, d2, CHR ''-'', l1, l2],
            info = bmw_520e\<rparr> \<and>
     length vid = 12 \<and> list_all is_ascii_upper vid \<and>
     is_ascii_digit d1 \<and> is_ascii_digit d2 \<and> is_ascii_upper l1 \<and> is_ascii_upper l2)"
proof -
  have "fst (register_vehicle main_registry (cycle [7, 4, 18]) ''BMW'' ''520e'') =
     Inr \<lparr>vehicle_id = ''HESHESHESHES'', license_plate = ''HE-74-SH'', info = bmw_520e\<rparr>"
    by (simp add: register_vehicle_example)
  with register_vehicle_registered [OF main_registry_lookup_bmw, of "cycle [7, 4, 18]"]
    main_registry_lookup_bmw
  show ?thesis by blast
qed

text \<open>
  Claim C2. For a pair \<open>(brand, model)\<close> absent from the mapping, \<open>register_vehicle\<close> fails
  with \<open>VehicleInfoMissingError\<close>, which carries that brand, that model and the message
  \<open>Vehicle information is missing.\<close>
\<close>

theorem register_vehicle_unregistered:
  assumes "Mapping.lookup (vehicle_models self) (b, m) = None"
  shows "fst (register_vehicle self g b m) =
           Inl (VehicleInfoMissingError b m ''Vehicle information is missing.'')"
  using register_vehicle_None [OF assms, of g] by (simp add: default_message_def)

theorem register_vehicle_unregistered_witness:
  "Mapping.lookup (vehicle_models main_registry) (''Ford'', ''Focus'') = None \<and>
   fst (register_vehicle main_registry (cycle [7, 4, 18]) ''Ford'' ''Focus'') =
     Inl (VehicleInfoMissingError ''Ford'' ''Focus'' ''Vehicle information is missing.'')"
  using register_vehicle_unregistered [OF main_registry_lookup_ford, of "cycle [7, 4, 18]"]
    main_registry_lookup_ford by blast

text \<open>
  Claim C3. \<open>online_status\<close> is \<open>OFFLINE\<close> when the flag is off, whatever the mapping holds;
  \<open>CONNECTION_ERROR\<close> when the flag is on and the mapping has no key; \<open>ONLINE\<close> when the flag
  is on and the mapping has a key; and the registry after the call is the registry before.
\<close>

theorem online_status_cases:
  "(\<not> online self \<longrightarrow> fst (online_status self) = OFFLINE) \<and>
   (online self \<and> Mapping.keys (vehicle_models self) = {} \<longrightarrow>
      fst (online_status self) = CONNECTION_ERROR) \<and>
   (online self \<and> Mapping.keys (vehicle_models self) \<noteq> {} \<longrightarrow>
      fst (online_status self) = ONLINE) \<and>
   snd (online_status self) = self"
  by (simp add: online_status_def Mapping.is_empty_def)

theorem online_status_cases_witness:
  "fst (online_status (main_registry\<lparr>online := False\<rparr>)) = OFFLINE \<and>
   fst (online_status new_VehicleRegistry) = CONNECTION_ERROR \<and>
   fst (online_status main_registry) = ONLINE \<and>
   snd (online_status main_registry) = main_registry"
  using online_status_cases [of "main_registry\<lparr>online := False\<rparr>"]
    online_status_cases [of new_VehicleRegistry]
    online_status_cases [of main_registry]
  by (simp add: example_defs)

text \<open>
  Claim C4. After a run of insertions into any registry, \<open>find_model_info\<close> at the key of
  an inserted info that no later insertion of the run overwrote returns exactly that
  info; after a run of insertions into a new registry, \<open>find_model_info\<close> at a key that
  none of them has returns \<open>None\<close>. The result is an option: no path raises.
\<close>

theorem find_model_info_after_inserts:
  "((\<forall>j\<in>set post. (brand j, model j) \<noteq> (brand i, model i)) \<longrightarrow>
      fst (find_model_info (foldl add_vehicle_model_info r (pre @ i # post)) (brand i) (model i))
        = Some i) \<and>
   ((\<forall>j\<in>set infos. (brand j, model j) \<noteq> (b, m)) \<longrightarrow>
      fst (find_model_info (foldl add_vehicle_model_info new_VehicleRegistry infos) b m) = None)"
proof (intro conjI impI)
  assume a: "\<forall>j\<in>set post. (brand j, model j) \<noteq> (brand i, model i)"
  then have "List.find (\<lambda>j. (brand j, model j) = (brand i, model i)) (rev post) = None"
    by (simp add: find_None_iff)
  then have "List.find (\<lambda>j. (brand j, model j) = (brand i, model i)) (rev (pre @ i # post)) = Some i"
    by (simp add: find_append_conv)
  then show "fst (find_model_info (foldl add_vehicle_model_info r (pre @ i # post)) (brand i) (model i)) = Some i"
    unfolding find_model_info_def by (simp only: fst_conv lookup_foldl_add option.case)
next
  assume "\<forall>j\<in>set infos. (brand j, model j) \<noteq> (b, m)"
  then have "List.find (\<lambda>j. (brand j, model j) = (b, m)) (rev infos) = None"
    by (simp add: find_None_iff)
  then show "fst (find_model_info (foldl add_vehicle_model_info new_VehicleRegistry infos) b m) = None"
    unfolding find_model_info_def
    by (simp only: fst_conv lookup_foldl_add option.case) (simp add: new_VehicleRegistry_def)
qed

theorem find_model_info_after_inserts_witness:
  "fst (find_model_info main_registry ''BMW'' ''520e'') = Some bmw_520e \<and>
   fst (find_model_info main_registry ''Ford'' ''Focus'') = None"
  using find_model_info_after_inserts
    [of "[tesla_model_y]" bmw_520e new_VehicleRegistry "[tesla_model_3, volkswagen_id3]"
        "[tesla_model_3, volkswagen_id3, bmw_520e, tesla_model_y]" "''Ford''" "''Focus''"]
  by (simp add: main_registry_def tesla_model_3_def volkswagen_id3_def bmw_520e_def
      tesla_model_y_def new_VehicleModelInfo_def)

text \<open>
  Claim C5, as amended. For a price below \<open>2 ^ 53\<close> in absolute value the tax is a finite
  float \<open>v\<close>. With \<open>r\<close> the float of the rate (\<open>0.02\<close> for \<open>ELECTRIC\<close>, \<open>0.05\<close> for
  \<open>PETROL\<close>, each within \<open>2 ^ - 54\<close>, relatively, of the percentage), no float is nearer
  to the exact product of \<open>r\<close> and the price than \<open>v\<close>, and where another float is as
  near, the 53-bit significand of \<open>v\<close> is even. So \<open>v\<close> is within \<open>2 ^ - 52\<close>,
  relatively, of 2 percent of the price for \<open>ELECTRIC\<close> and of 5 percent for \<open>PETROL\<close>;
  it is exactly 1000 for \<open>ELECTRIC\<close> at 50000 and exactly 3000 for \<open>PETROL\<close> at 60000.
\<close>

theorem tax_within_rounding:
  assumes "\<bar>catalogue_price i\<bar> < 2 ^ 53"
  shows "\<exists>k e v r. tax i = Inr (Finite k e) \<and> float_val (Finite k e) = Some v \<and>
     float_val (taxes (fuel_type i)) = Some r \<and>
     r = (case fuel_type i of ELECTRIC \<Rightarrow> 5764607523034235 / 2 ^ 58
                            | PETROL \<Rightarrow> 7205759403792794 / 2 ^ 57) \<and>
     \<bar>r - (case fuel_type i of ELECTRIC \<Rightarrow> 2 / 100 | PETROL \<Rightarrow> 5 / 100)\<bar>
       \<le> (case fuel_type i of ELECTRIC \<Rightarrow> 2 / 100 | PETROL \<Rightarrow> 5 / 100) / 2 ^ 54 \<and>
     \<bar>k\<bar> \<le> 2 ^ 53 \<and> - 1074 \<le> e \<and> e \<le> 970 \<and>
     (\<forall>m' e'. is_double m' e' \<longrightarrow>
        \<bar>v - r * real_of_int (catalogue_price i)\<bar>
          \<le> \<bar>real_of_int m' * 2 powi e' - r * real_of_int (catalogue_price i)\<bar>) \<and>
     (\<forall>m' e'. is_double m' e' \<and> real_of_int m' * 2 powi e' \<noteq> v \<and>
        \<bar>real_of_int m' * 2 powi e' - r * real_of_int (catalogue_price i)\<bar>
          \<le> \<bar>v - r * real_of_int (catalogue_price i)\<bar> \<longrightarrow>
        even k \<and> 2 ^ 52 \<le> \<bar>k\<bar>) \<and>
     \<bar>v - (case fuel_type i of ELECTRIC \<Rightarrow> 2 / 100 | PETROL \<Rightarrow> 5 / 100)
            * real_of_int (catalogue_price i)\<bar>
       \<le> (case fuel_type i of ELECTRIC \<Rightarrow> 2 / 100 | PETROL \<Rightarrow> 5 / 100)
            * \<bar>real_of_int (catalogue_price i)\<bar> / 2 ^ 52 \<and>
     (fuel_type i = ELECTRIC \<and> catalogue_price i = 50000 \<longrightarrow> v = 1000) \<and>
     (fuel_type i = PETROL \<and> catalogue_price i = 60000 \<longrightarrow> v = 3000)"
proof -
  from tax_nearest [OF assms] obtain k e v r
    where n: "tax i = Inr (Finite k e)" "float_val (Finite k e) = Some v"
      "float_val (taxes (fuel_type i)) = Some r"
      "\<bar>k\<bar> \<le> 2 ^ 53" "- 1074 \<le> e" "e \<le> 970"
      "\<forall>m' e'. is_double m' e' \<longrightarrow>
        \<bar>v - r * real_of_int (catalogue_price i)\<bar>
          \<le> \<bar>real_of_int m' * 2 powi e' - r * real_of_int (catalogue_price i)\<bar>"
      "\<forall>m' e'. is_double m' e' \<and> real_of_int m' * 2 powi e' \<noteq> v \<and>
        \<bar>real_of_int m' * 2 powi e' - r * real_of_int (catalogue_price i)\<bar>
          \<le> \<bar>v - r * real_of_int (catalogue_price i)\<bar> \<longrightarrow>
        even k \<and> 2 ^ 52 \<le> \<bar>k\<bar>"
    by blast
  from n(3) have r: "r = (case fuel_type i of ELECTRIC \<Rightarrow> 5764607523034235 / 2 ^ 58
                            | PETROL \<Rightarrow> 7205759403792794 / 2 ^ 57)"
    by (simp only: taxes_value option.inject)
  have c: "\<bar>r - (case fuel_type i of ELECTRIC \<Rightarrow> 2 / 100 | PETROL \<Rightarrow> 5 / 100)\<bar>
       \<le> (case fuel_type i of ELECTRIC \<Rightarrow> 2 / 100 | PETROL \<Rightarrow> 5 / 100) / 2 ^ 54"
    unfolding r by (rule taxes_close)
  from tax_bound [OF assms] n(1,2) have b:
    "\<bar>v - (case fuel_type i of ELECTRIC \<Rightarrow> 2 / 100 | PETROL \<Rightarrow> 5 / 100)
            * real_of_int (catalogue_price i)\<bar>
       \<le> (case fuel_type i of ELECTRIC \<Rightarrow> 2 / 100 | PETROL \<Rightarrow> 5 / 100)
            * \<bar>real_of_int (catalogue_price i)\<bar> / 2 ^ 52"
    "fuel_type i = ELECTRIC \<and> catalogue_price i = 50000 \<longrightarrow> v = 1000"
    "fuel_type i = PETROL \<and> catalogue_price i = 60000 \<longrightarrow> v = 3000"
    by auto
  from n r c b show ?thesis by blast
qed

theorem tax_within_rounding_witness:
  "\<bar>catalogue_price tesla_model_3\<bar> < 2 ^ 53 \<and> \<bar>catalogue_price bmw_520e\<bar> < 2 ^ 53 \<and>
   (\<exists>t. tax tesla_model_3 = Inr t \<and> float_val t = Some 1000) \<and>
   (\<exists>t. tax bmw_520e = Inr t \<and> float_val t = Some 3000)"
proof -
  have a: "\<bar>catalogue_price tesla_model_3\<bar> < 2 ^ 53" "\<bar>catalogue_price bmw_520e\<bar> < 2 ^ 53"
    by (simp_all add: tesla_model_3_def bmw_520e_def new_VehicleModelInfo_def)
  have f: "fuel_type tesla_model_3 = ELECTRIC" "catalogue_price tesla_model_3 = 50000"
    "fuel_type bmw_520e = PETROL" "catalogue_price bmw_520e = 60000"
    by (simp_all add: tesla_model_3_def bmw_520e_def new_VehicleModelInfo_def)
  from tax_within_rounding [OF a(1)] obtain k1 e1 v1
    where t1: "tax tesla_model_3 = Inr (Finite k1 e1)" "float_val (Finite k1 e1) = Some v1"
      "fuel_type tesla_model_3 = ELECTRIC \<and> catalogue_price tesla_model_3 = 50000 \<longrightarrow> v1 = 1000"
    by (elim exE conjE) blast
  from tax_within_rounding [OF a(2)] obtain k2 e2 v2
    where t2: "tax bmw_520e = Inr (Finite k2 e2)" "float_val (Finite k2 e2) = Some v2"
      "fuel_type bmw_520e = PETROL \<and> catalogue_price bmw_520e = 60000 \<longrightarrow> v2 = 3000"
    by (elim exE conjE) blast
  from t1 f(1,2) have "\<exists>t. tax tesla_model_3 = Inr t \<and> float_val t = Some 1000" by blast
  moreover from t2 f(3,4) have "\<exists>t. tax bmw_520e = Inr t \<and> float_val t = Some 3000" by blast
  ultimately show ?thesis using a by blast
qed

text \<open>
  The tax is not always the percentage itself: for \<open>PETROL\<close> at the price 3 it is the
  float \<open>0.15000000000000002\<close>, which is not 5 percent of 3.
\<close>

theorem tax_petrol_3_counterexample:
  "tax \<lparr>brand = ''BMW'', model = ''520e'', catalogue_price = 3, fuel_type = PETROL,
        production_year = 2024\<rparr> = Inr (Finite 5404319552844596 (- 55)) \<and>
   float_val (Finite 5404319552844596 (- 55)) \<noteq> Some (5 / 100 * 3)"
  by (simp add: tax_eval power_int_minus)

text \<open>
  Claim C6. \<open>add_vehicle_model_info\<close> changes the mapping only: the flag is as before. The
  keys afterwards are the keys before and \<open>(brand, model)\<close> of the info, that key is
  bound to the info and every other key to what it was bound to, and a second insertion
  under the same key replaces the first.
\<close>

theorem add_vehicle_model_info_frame:
  "add_vehicle_model_info self i =
     \<lparr>vehicle_models = vehicle_models (add_vehicle_model_info self i), online = online self\<rparr> \<and>
   Mapping.keys (vehicle_models (add_vehicle_model_info self i)) =
     insert (brand i, model i) (Mapping.keys (vehicle_models self)) \<and>
   (\<forall>k. Mapping.lookup (vehicle_models (add_vehicle_model_info self i)) k =
        (if k = (brand i, model i) then Some i else Mapping.lookup (vehicle_models self) k)) \<and>
   (\<forall>j. (brand j, model j) = (brand i, model i) \<longrightarrow>
        Mapping.lookup (vehicle_models (add_vehicle_model_info (add_vehicle_model_info self i) j))
          (brand i, model i) = Some j)"
  by (simp add: lookup_add_vehicle_model_info) (simp add: add_vehicle_model_info_def)

theorem add_vehicle_model_info_frame_witness:
  "Mapping.lookup
     (vehicle_models (add_vehicle_model_info (add_vehicle_model_info main_registry bmw_520e)
        (bmw_520e\<lparr>catalogue_price := 61000\<rparr>))) (''BMW'', ''520e'')
     = Some (bmw_520e\<lparr>catalogue_price := 61000\<rparr>) \<and>
   Mapping.lookup (vehicle_models (add_vehicle_model_info main_registry bmw_520e)) (''Ford'', ''Focus'')
     = Mapping.lookup (vehicle_models main_registry) (''Ford'', ''Focus'')"
  using add_vehicle_model_info_frame [of main_registry bmw_520e]
  by (simp add: bmw_520e_def new_VehicleModelInfo_def)

text \<open>
  Claim C7. \<open>register_vehicle\<close> returns a vehicle exactly when \<open>(brand, model)\<close> is a key of
  the mapping; the vehicle's \<open>info\<close> is then what the mapping holds under that key at the
  call; and for any other pair the call fails.
\<close>

theorem register_vehicle_only_registered:
  "((\<exists>v. fst (register_vehicle self g b m) = Inr v) \<longleftrightarrow>
      (b, m) \<in> Mapping.keys (vehicle_models self)) \<and>
   (\<forall>v. fst (register_vehicle self g b m) = Inr v \<longrightarrow>
      Mapping.lookup (vehicle_models self) (b, m) = Some (info v)) \<and>
   ((b, m) \<notin> Mapping.keys (vehicle_models self) \<longrightarrow>
      (\<exists>e. fst (register_vehicle self g b m) = Inl e))"
proof (cases "Mapping.lookup (vehicle_models self) (b, m)")
  case None
  then have k: "(b, m) \<notin> Mapping.keys (vehicle_models self)"
    by (simp add: Mapping.keys_is_none_rep)
  from register_vehicle_None [OF None, of g] k show ?thesis by simp
next
  case (Some i)
  then have k: "(b, m) \<in> Mapping.keys (vehicle_models self)"
    by (simp add: Mapping.keys_is_none_rep)
  from register_vehicle_Some [OF Some, of g] obtain v g'
    where "register_vehicle self g b m = (Inr v, self, g')" "info v = i"
    by force
  with k Some show ?thesis by simp
qed

theorem register_vehicle_only_registered_witness:
  "(\<exists>v. fst (register_vehicle main_registry (cycle [7, 4, 18]) ''BMW'' ''520e'') = Inr v) \<and>
   (\<exists>e. fst (register_vehicle main_registry (cycle [7, 4, 18]) ''Ford'' ''Focus'') = Inl e)"
  using register_vehicle_only_registered [of main_registry "cycle [7, 4, 18]" "''BMW''" "''520e''"]
    register_vehicle_only_registered [of main_registry "cycle [7, 4, 18]" "''Ford''" "''Focus''"]
    main_registry_lookup_bmw main_registry_lookup_ford
  by (simp add: Mapping.keys_is_none_rep)

text \<open>
  Claim C8. On the success path and on the error path alike, the registry after
  \<open>register_vehicle\<close> is the registry before: the same mapping and the same flag.
\<close>

theorem register_vehicle_keeps_registry:
  "fst (snd (register_vehicle self g b m)) = self \<and>
   vehicle_models (fst (snd (register_vehicle self g b m))) = vehicle_models self \<and>
   online (fst (snd (register_vehicle self g b m))) = online self"
proof (cases "Mapping.lookup (vehicle_models self) (b, m)")
  case None
  from register_vehicle_None [OF None, of g] show ?thesis by simp
next
  case (Some i)
  from register_vehicle_Some [OF Some, of g] obtain v g'
    where "register_vehicle self g b m = (Inr v, self, g')"
    by force
  then show ?thesis by simp
qed

text \<open>
  Claim C9. A new registry has the flag on and an empty mapping, so \<open>online_status\<close> on it
  is \<open>CONNECTION_ERROR\<close> and not \<open>OFFLINE\<close>.
\<close>

theorem new_VehicleRegistry_status:
  "online new_VehicleRegistry \<and>
   Mapping.keys (vehicle_models new_VehicleRegistry) = {} \<and>
   fst (online_status new_VehicleRegistry) = CONNECTION_ERROR \<and>
   fst (online_status new_VehicleRegistry) \<noteq> OFFLINE"
  by (simp add: new_VehicleRegistry_def online_status_def)

text \<open>
  Claim C10. A \<open>VehicleModelInfo\<close> made from brand, model and price alone has the fuel type
  \<open>ELECTRIC\<close> and, as its production year, the year taken when the class was defined.
  Its tax is the product with the rate of \<open>ELECTRIC\<close>, a float within \<open>2 ^ - 54\<close>,
  relatively, of 2 percent; so for a price below \<open>2 ^ 53\<close> in absolute value the tax is
  within \<open>2 ^ - 52\<close>, relatively, of 2 percent of the price.
\<close>

theorem new_VehicleModelInfo_defaults:
  "fuel_type (new_VehicleModelInfo class_year b m price None None) = ELECTRIC \<and>
   production_year (new_VehicleModelInfo class_year b m price None None) = class_year \<and>
   tax (new_VehicleModelInfo class_year b m price None None) =
     (case float_of_int price of
        Inl e \<Rightarrow> Inl e
      | Inr p \<Rightarrow> Inr (float_mul (taxes ELECTRIC) p)) \<and>
   (\<exists>r. float_val (taxes ELECTRIC) = Some r \<and> \<bar>r - 2 / 100\<bar> \<le> 2 / 100 / 2 ^ 54) \<and>
   (\<bar>price\<bar> < 2 ^ 53 \<longrightarrow>
      (\<exists>t v. tax (new_VehicleModelInfo class_year b m price None None) = Inr t \<and>
             float_val t = Some v \<and>
             \<bar>v - 2 / 100 * real_of_int price\<bar> \<le> 2 / 100 * \<bar>real_of_int price\<bar> / 2 ^ 52))"
proof -
  let ?i = "new_VehicleModelInfo class_year b m price None None"
  have f: "fuel_type ?i = ELECTRIC" and y: "production_year ?i = class_year"
    and c: "catalogue_price ?i = price"
    by (simp_all add: new_VehicleModelInfo_def)
  have t: "tax ?i = (case float_of_int price of
        Inl e \<Rightarrow> Inl e
      | Inr p \<Rightarrow> Inr (float_mul (taxes ELECTRIC) p))"
    by (simp add: new_VehicleModelInfo_def tax_def)
  have r: "\<exists>r. float_val (taxes ELECTRIC) = Some r \<and> \<bar>r - 2 / 100\<bar> \<le> 2 / 100 / 2 ^ 54"
  proof -
    have "float_val (taxes ELECTRIC) = Some (5764607523034235 / 2 ^ 58)"
      using taxes_value [of ELECTRIC] by (simp only: FuelType.case)
    moreover have "\<bar>5764607523034235 / 2 ^ 58 - 2 / 100\<bar> \<le> (2 / 100 / 2 ^ 54 :: real)"
      by simp
    ultimately show ?thesis by blast
  qed
  have "\<exists>t v. tax ?i = Inr t \<and> float_val t = Some v \<and>
             \<bar>v - 2 / 100 * real_of_int price\<bar> \<le> 2 / 100 * \<bar>real_of_int price\<bar> / 2 ^ 52"
    if "\<bar>price\<bar> < 2 ^ 53"
    using tax_electric_bound [of ?i] that f c by simp
  with f y t r show ?thesis by blast
qed

theorem new_VehicleModelInfo_defaults_witness:
  "\<bar>50000 :: int\<bar> < 2 ^ 53 \<and>
   fuel_type tesla_model_3 = ELECTRIC \<and> production_year tesla_model_3 = example_year \<and>
   (\<exists>t v. tax tesla_model_3 = Inr t \<and> float_val t = Some v \<and>
          \<bar>v - 2 / 100 * real_of_int 50000\<bar> \<le> 2 / 100 * \<bar>real_of_int 50000\<bar> / 2 ^ 52)"
proof -
  have a: "\<bar>50000 :: int\<bar> < 2 ^ 53" by simp
  from new_VehicleModelInfo_defaults [of example_year "''Tesla''" "''Model 3''" 50000] a
  show ?thesis unfolding tesla_model_3_def by blast
qed

end
